theory Spec2Isabelle
  imports Complex_Main
begin

section \<open>Numeric model\<close>

text \<open>
  The routines of \<^verbatim>\<open>cleanlab/internal/util.py\<close> and
  \<^verbatim>\<open>cleanlab/internal/token_classification_utils.py\<close> work on numpy arrays of
  floats. Finite array entries are modelled as exact reals: addition, multiplication and
  division by a nonzero divisor are the real operations. What numpy does where the reals
  have no answer is written out: a division by zero yields a non-finite entry (and only a
  warning), and the numpy calls that reject an empty array return an error value.
\<close>

datatype error = ValueError | IndexError | KeyError | AssertionError
  | DegenerateDistributionError | ShapeMismatchError

text \<open>
  \<open>ValueError\<close>, \<open>IndexError\<close>, \<open>KeyError\<close> and \<open>AssertionError\<close> are the exceptions
  the modelled statements can raise. \<open>DegenerateDistributionError\<close> and
  \<open>ShapeMismatchError\<close> are the names the specification uses; the two source files
  define no such class and no function below constructs them.
\<close>

datatype npfloat = Num real | Infinite | NaN

text \<open>
  An entry of a float array after a division: a finite value, an infinity (numpy's
  \<^verbatim>\<open>inf\<close> or \<^verbatim>\<open>-inf\<close>; the sign depends on the sign of the zero
  divisor, which the reals do not record) or \<^verbatim>\<open>nan\<close>.
\<close>

definition np_div :: "real \<Rightarrow> real \<Rightarrow> npfloat" where
  "np_div x y = (if y \<noteq> 0 then Num (x / y) else if x = 0 then NaN else Infinite)"





section \<open>Sum-preserving rounding\<close>














section \<open>Confusion matrix\<close>

text \<open>\<^verbatim>\<open>np.unique\<close>: the distinct values, sorted ascending.\<close>

definition np_unique :: "'a::linorder list \<Rightarrow> 'a list" where
  "np_unique xs = sort (remdups xs)"

text \<open>
  The counting loop of \<^verbatim>\<open>confusion_matrix\<close> over the positions \<open>is\<close>. A dictionary
  is a map; a missing key is \<^verbatim>\<open>KeyError\<close>, a cell outside the matrix
  \<^verbatim>\<open>IndexError\<close>.
\<close>

fun count_loop ::
  "('a \<rightharpoonup> nat) \<Rightarrow> ('b \<rightharpoonup> nat) \<Rightarrow> 'a list \<Rightarrow> 'b list \<Rightarrow> nat list \<Rightarrow> real list list
     \<Rightarrow> error + real list list" where
  "count_loop map_true map_pred true pred [] result = Inr result"
| "count_loop map_true map_pred true pred (i # is) result =
     (case map_true (true ! i) of
        None \<Rightarrow> Inl KeyError
      | Some a \<Rightarrow>
          (case map_pred (pred ! i) of
             None \<Rightarrow> Inl KeyError
           | Some b \<Rightarrow>
               if a < length result \<and> b < length (result ! a)
               then count_loop map_true map_pred true pred is
                      (result[a := (result ! a)[b := result ! a ! b + 1]])
               else Inl IndexError))"

definition confusion_matrix :: "'a::linorder list \<Rightarrow> 'b::linorder list \<Rightarrow> error + real list list" where
  "confusion_matrix true pred =
     (if length true \<noteq> length pred then Inl AssertionError
      else
        let true_classes = np_unique true;
            pred_classes = np_unique pred;
            K_true = length true_classes;
            K_pred = length pred_classes;
            map_true = map_of (zip true_classes [0..<K_true]);
            map_pred = map_of (zip pred_classes [0..<K_pred]);
            result = replicate K_true (replicate K_pred 0)
        in count_loop map_true map_pred true pred [0..<length true] result)"

section \<open>Merging class probabilities\<close>

text \<open>
  The array \<^verbatim>\<open>probs\<close> of shape \<open>(N, K)\<close>: its rows, and its number of columns
  \<^verbatim>\<open>probs.shape[1]\<close>, which an array has even when it has no rows.
\<close>

record ndarray =
  ncols :: nat
  rows :: "real list list"

definition wf_ndarray :: "ndarray \<Rightarrow> bool" where
  "wf_ndarray a \<longleftrightarrow> list_all (\<lambda>r. length r = ncols a) (rows a)"

text \<open>\<^verbatim>\<open>np.max\<close> raises \<^verbatim>\<open>ValueError\<close> on an empty sequence.\<close>

fun np_max :: "int list \<Rightarrow> error + int" where
  "np_max [] = Inl ValueError"
| "np_max (x # xs) = Inr (fold max xs x)"

text \<open>\<^verbatim>\<open>probs_merged[:, j] += probs[:, i]\<close>\<close>

definition add_column :: "real list list \<Rightarrow> nat \<Rightarrow> real list list \<Rightarrow> nat \<Rightarrow> real list list" where
  "add_column probs_merged j probs_rows i =
     map2 (\<lambda>mrow prow. mrow[j := mrow ! j + prow ! i]) probs_merged probs_rows"

text \<open>
  The loop over the old classes. \<^verbatim>\<open>maps\<close> is a Python list: reading it past its end
  raises \<^verbatim>\<open>IndexError\<close>.
\<close>

fun merge_loop :: "real list list \<Rightarrow> int list \<Rightarrow> nat list \<Rightarrow> real list list \<Rightarrow> error + real list list" where
  "merge_loop probs_rows maps [] probs_merged = Inr probs_merged"
| "merge_loop probs_rows maps (i # is) probs_merged =
     (if length maps \<le> i then Inl IndexError
      else if 0 \<le> maps ! i
      then merge_loop probs_rows maps is (add_column probs_merged (nat (maps ! i)) probs_rows i)
      else merge_loop probs_rows maps is probs_merged)"

text \<open>\<^verbatim>\<open>probs_merged /= row_sums[:, np.newaxis]\<close>\<close>

definition renormalize_rows :: "real list list \<Rightarrow> npfloat list list" where
  "renormalize_rows m = map (\<lambda>r. map (\<lambda>x. np_div x (sum_list r)) r) m"

text \<open>
  \<^verbatim>\<open>np.zeros\<close> raises \<^verbatim>\<open>ValueError\<close> on a negative dimension, which
  \<^verbatim>\<open>map_size\<close> is when every entry of \<^verbatim>\<open>maps\<close> is below \<open>-1\<close>.
\<close>

definition merge_probs :: "ndarray \<Rightarrow> int list \<Rightarrow> error + npfloat list list" where
  "merge_probs probs maps =
     (let old_classes = ncols probs
      in case np_max maps of
           Inl e \<Rightarrow> Inl e
         | Inr mx \<Rightarrow>
             let map_size = mx + 1
             in if map_size < 0 then Inl ValueError
                else
                  let probs_merged = replicate (length (rows probs)) (replicate (nat map_size) 0)
                  in case merge_loop (rows probs) maps [0..<old_classes] probs_merged of
                       Inl e \<Rightarrow> Inl e
                     | Inr merged \<Rightarrow>
                         if - 1 \<in> set maps then Inr (renormalize_rows merged)
                         else Inr (map (map Num) merged))"

text \<open>
  What the merge computes, for comparison: entry \<open>j\<close> of a merged row is the sum of the
  old entries \<open>i\<close> with \<open>maps[i] = j\<close>; \<open>surviving_mass\<close> is the sum of the old entries
  that are not dropped.
\<close>

definition merged_row :: "int list \<Rightarrow> nat \<Rightarrow> nat \<Rightarrow> real list \<Rightarrow> real list" where
  "merged_row maps old_classes new_classes row =
     map (\<lambda>j. \<Sum>i\<leftarrow>[0..<old_classes]. if maps ! i = int j then row ! i else 0) [0..<new_classes]"


section \<open>Clipping\<close>

definition clip_range :: "real \<Rightarrow> real \<Rightarrow> real \<Rightarrow> real" where
  "clip_range low high a = min (max a low) high"

text \<open>
  \<^verbatim>\<open>clip_values(x, low, high, new_sum)\<close>; \<open>None\<close> is the default of
  \<^verbatim>\<open>new_sum\<close>. \<^verbatim>\<open>np.vectorize\<close> raises \<^verbatim>\<open>ValueError\<close> on an input of size 0.
\<close>

definition clip_values :: "real list \<Rightarrow> real \<Rightarrow> real \<Rightarrow> real option \<Rightarrow> error + npfloat list" where
  "clip_values x low high new_sum =
     (let prev_sum = (case new_sum of None \<Rightarrow> sum_list x | Some s \<Rightarrow> s)
      in if x = [] then Inl ValueError
         else
           let x' = map (clip_range low high) x
           in Inr (map (\<lambda>v. np_div (v * prev_sum) (sum_list x')) x'))"



definition column :: "real list list \<Rightarrow> nat \<Rightarrow> real list" where
  "column m j = map (\<lambda>r. r ! j) m"


section \<open>Removing noise from a class\<close>

text \<open>
  \<^verbatim>\<open>remove_noise_from_class\<close> on a square matrix given as the list of its \<open>K\<close>
  rows. The class index follows numpy's indexing: a negative index counts from the end, an
  index outside \<open>[-K, K)\<close> raises \<^verbatim>\<open>IndexError\<close>.
\<close>

definition repair_diagonal :: "nat \<Rightarrow> real list list \<Rightarrow> real list list" where
  "repair_diagonal i x = x[i := (x ! i)[i := 1 - (sum_list (column x i) - x ! i ! i)]]"

definition remove_noise_from_class :: "real list list \<Rightarrow> int \<Rightarrow> error + real list list" where
  "remove_noise_from_class noise_matrix class_without_noise =
     (let K = length noise_matrix;
          cwn = class_without_noise;
          x = noise_matrix
      in if cwn < - int K \<or> int K \<le> cwn then Inl IndexError
         else
           let r = nat (if cwn < 0 then cwn + int K else cwn);
               others = filter (\<lambda>i. int i \<noteq> cwn) [0..<K];
               x = x[r := fold (\<lambda>j row. row[j := 0]) others (x ! r)]
           in Inr (fold repair_diagonal [0..<K] x))"

section \<open>Shapes\<close>

text \<open>A matrix given as its rows has shape \<open>(n, k)\<close>: \<open>n\<close> rows of \<open>k\<close> entries each.\<close>

definition shape :: "nat \<Rightarrow> nat \<Rightarrow> real list list \<Rightarrow> bool" where
  "shape n k m \<longleftrightarrow> length m = n \<and> list_all (\<lambda>r. length r = k) m"

section \<open>Properties of the rounding loop\<close>










lemma sum_list_bump_one:
  "i < length xs \<Longrightarrow> sum_list (xs[i := xs ! i + c]) = sum_list xs + (c::real)"
proof (induction xs arbitrary: i)
  case Nil
  then show ?case by simp
next
  case (Cons x xs)
  then show ?case by (cases i) simp_all
qed



















section \<open>Claims about sum-preserving rounding\<close>








section \<open>Properties of the confusion matrix\<close>

lemma np_unique_props:
  "distinct (np_unique xs)" "set (np_unique xs) = set xs" "sorted (np_unique xs)"
  "length (np_unique xs) = card (set xs)" "np_unique xs = sorted_list_of_set (set xs)"
proof -
  show d: "distinct (np_unique xs)" by (simp add: np_unique_def)
  show s: "set (np_unique xs) = set xs" by (simp add: np_unique_def)
  show "sorted (np_unique xs)" by (simp add: np_unique_def)
  show "length (np_unique xs) = card (set xs)"
    using distinct_card[OF d] s by simp
  show "np_unique xs = sorted_list_of_set (set xs)"
    by (simp add: np_unique_def sorted_list_of_set_sort_remdups)
qed

lemma index_map:
  assumes "distinct cs"
  shows "map_of (zip cs [0..<length cs]) x = Some a \<longleftrightarrow> a < length cs \<and> cs ! a = x"
proof
  assume "map_of (zip cs [0..<length cs]) x = Some a"
  then have "(x, a) \<in> set (zip cs [0..<length cs])" by (rule map_of_SomeD)
  then obtain i where "i < length cs" "cs ! i = x" "[0..<length cs] ! i = a"
    by (auto simp: in_set_zip)
  then show "a < length cs \<and> cs ! a = x" by simp
next
  assume a: "a < length cs \<and> cs ! a = x"
  have "map_of (zip cs [0..<length cs]) (cs ! a) = Some ([0..<length cs] ! a)"
    using assms a by (intro map_of_zip_nth) simp_all
  then show "map_of (zip cs [0..<length cs]) x = Some a" using a by simp
qed

lemma index_map_total:
  assumes "distinct cs" "x \<in> set cs"
  shows "\<exists>a<length cs. map_of (zip cs [0..<length cs]) x = Some a"
proof -
  obtain a where "a < length cs" "cs ! a = x" using assms(2) by (auto simp: in_set_conv_nth)
  then show ?thesis using index_map[OF assms(1), of x a] by auto
qed

lemma shape_nth: "shape n k m \<Longrightarrow> a < n \<Longrightarrow> length (m ! a) = k"
  by (simp add: shape_def list_all_length)

lemma shape_cell_update:
  "shape n k m \<Longrightarrow> shape n k (m[a := (m ! a)[b := v]])"
proof -
  assume sh: "shape n k m"
  have "length (m[a := (m ! a)[b := v]] ! i) = k" if "i < length m" for i
    using that sh by (cases "i = a") (simp_all add: shape_def list_all_length)
  then show ?thesis using sh by (simp add: shape_def list_all_length)
qed

lemma total_bump:
  assumes "a < length m" "b < length (m ! a)"
  shows "sum_list (map sum_list (m[a := (m ! a)[b := m ! a ! b + 1]]))
           = sum_list (map sum_list m) + (1::real)"
proof -
  have "map sum_list (m[a := (m ! a)[b := m ! a ! b + 1]])
          = (map sum_list m)[a := sum_list ((m ! a)[b := m ! a ! b + 1])]"
    by (simp add: map_update)
  also have "sum_list ((m ! a)[b := m ! a ! b + 1]) = map sum_list m ! a + 1"
    using assms sum_list_bump_one[OF assms(2), of 1] by simp
  finally show ?thesis using assms(1) sum_list_bump_one[of a "map sum_list m" 1] by simp
qed

lemma count_loop_correct:
  assumes "shape n k result"
    and "\<forall>i\<in>set is. \<exists>a<n. mt (true ! i) = Some a"
    and "\<forall>i\<in>set is. \<exists>b<k. mp (pred ! i) = Some b"
  shows "\<exists>R. count_loop mt mp true pred is result = Inr R \<and> shape n k R \<and>
           sum_list (map sum_list R) = sum_list (map sum_list result) + real (length is) \<and>
           (\<forall>a<n. \<forall>b<k. R ! a ! b = result ! a ! b +
              real (length (filter (\<lambda>i. mt (true ! i) = Some a \<and> mp (pred ! i) = Some b) is)))"
  using assms
proof (induction "is" arbitrary: result)
  case Nil
  then show ?case by simp
next
  case (Cons i "is")
  obtain a where a: "a < n" "mt (true ! i) = Some a" using Cons.prems(2) by auto
  obtain b where b: "b < k" "mp (pred ! i) = Some b" using Cons.prems(3) by auto
  let ?r = "result[a := (result ! a)[b := result ! a ! b + 1]]"
  have la: "a < length result" using Cons.prems(1) a(1) by (simp add: shape_def)
  have lb: "b < length (result ! a)" using shape_nth[OF Cons.prems(1) a(1)] b(1) by simp
  have sh: "shape n k ?r" using Cons.prems(1) by (rule shape_cell_update)
  have step: "count_loop mt mp true pred (i # is) result = count_loop mt mp true pred is ?r"
    using a b la lb by simp
  obtain R where R: "count_loop mt mp true pred is ?r = Inr R" "shape n k R"
    "sum_list (map sum_list R) = sum_list (map sum_list ?r) + real (length is)"
    "\<forall>a'<n. \<forall>b'<k. R ! a' ! b' = ?r ! a' ! b' +
        real (length (filter (\<lambda>i. mt (true ! i) = Some a' \<and> mp (pred ! i) = Some b') is))"
    using Cons.IH[OF sh] Cons.prems(2,3) by auto
  have tot: "sum_list (map sum_list R) = sum_list (map sum_list result) + real (length (i # is))"
    using R(3) total_bump[OF la lb] by simp
  have cell: "R ! a' ! b' = result ! a' ! b' +
        real (length (filter (\<lambda>i. mt (true ! i) = Some a' \<and> mp (pred ! i) = Some b') (i # is)))"
    if "a' < n" "b' < k" for a' b'
  proof -
    have "?r ! a' ! b' = result ! a' ! b' + (if a' = a \<and> b' = b then 1 else 0)"
      using la lb that shape_nth[OF Cons.prems(1) that(1)]
      by (auto simp: nth_list_update)
    then show ?thesis using R(4) that a(2) b(2) by auto
  qed
  show ?case using step R(1,2) tot cell by simp
qed

lemma zeros_props:
  "shape n k (replicate n (replicate k 0))"
  "sum_list (map sum_list (replicate n (replicate k (0::real)))) = 0"
  by (simp_all add: shape_def list_all_length sum_list_replicate)

lemma confusion_matrix_example:
  "confusion_matrix [0, 0, 1 :: int] [0, 1, 1 :: int] = Inr [[1, 1], [0, 1]]"
  by code_simp

text \<open>
  Claim C8. For label sequences \<open>true\<close> and \<open>pred\<close> of equal length,
  \<^verbatim>\<open>confusion_matrix\<close> returns a matrix with one row per distinct value of
  \<open>true\<close> and one column per distinct value of \<open>pred\<close>; cell \<open>(a, b)\<close> counts the
  positions whose true label is the \<open>a\<close>-th distinct value of \<open>true\<close> in ascending
  order and whose predicted label is the \<open>b\<close>-th distinct value of \<open>pred\<close>; and the
  cells sum to \<open>len(true)\<close>.
\<close>

theorem confusion_matrix_counts:
  assumes "length true = length pred"
  shows "\<exists>R. confusion_matrix true pred = Inr R \<and>
           length R = card (set true) \<and>
           list_all (\<lambda>row. length row = card (set pred)) R \<and>
           (\<forall>a<card (set true). \<forall>b<card (set pred).
              R ! a ! b = real (length (filter
                (\<lambda>k. true ! k = sorted_list_of_set (set true) ! a \<and>
                     pred ! k = sorted_list_of_set (set pred) ! b) [0..<length true]))) \<and>
           sum_list (map sum_list R) = real (length true)"
proof -
  let ?tc = "np_unique true" and ?pc = "np_unique pred"
  let ?n = "card (set true)" and ?k = "card (set pred)"
  let ?mt = "map_of (zip ?tc [0..<length ?tc])" and ?mp = "map_of (zip ?pc [0..<length ?pc])"
  let ?z = "replicate ?n (replicate ?k (0::real))"
  note tp = np_unique_props[of true] and pp = np_unique_props[of pred]
  have t: "\<forall>i\<in>set [0..<length true]. \<exists>a<?n. ?mt (true ! i) = Some a"
    using index_map_total[OF tp(1), of "true ! i" for i] tp(2,4) by simp
  have p: "\<forall>i\<in>set [0..<length true]. \<exists>b<?k. ?mp (pred ! i) = Some b"
    using index_map_total[OF pp(1), of "pred ! i" for i] pp(2,4) assms by simp
  obtain R where R: "count_loop ?mt ?mp true pred [0..<length true] ?z = Inr R" "shape ?n ?k R"
    "sum_list (map sum_list R) = sum_list (map sum_list ?z) + real (length [0..<length true])"
    "\<forall>a<?n. \<forall>b<?k. R ! a ! b = ?z ! a ! b +
        real (length (filter (\<lambda>i. ?mt (true ! i) = Some a \<and> ?mp (pred ! i) = Some b)
          [0..<length true]))"
    using count_loop_correct[OF zeros_props(1) t p] by blast
  have cm: "confusion_matrix true pred = Inr R"
    using assms R(1) by (simp add: confusion_matrix_def Let_def tp(4) pp(4))
  have cell: "R ! a ! b = real (length (filter
                (\<lambda>k. true ! k = sorted_list_of_set (set true) ! a \<and>
                     pred ! k = sorted_list_of_set (set pred) ! b) [0..<length true]))"
    if ab: "a < ?n" "b < ?k" for a b
  proof -
    have "?mt x = Some a \<longleftrightarrow> sorted_list_of_set (set true) ! a = x" for x
      using index_map[OF tp(1), of x a] ab(1) tp(4,5) by simp
    moreover have "?mp y = Some b \<longleftrightarrow> sorted_list_of_set (set pred) ! b = y" for y
      using index_map[OF pp(1), of y b] ab(2) pp(4,5) by simp
    ultimately have "(\<lambda>i. ?mt (true ! i) = Some a \<and> ?mp (pred ! i) = Some b)
         = (\<lambda>k. true ! k = sorted_list_of_set (set true) ! a \<and>
                     pred ! k = sorted_list_of_set (set pred) ! b)"
      by (intro ext) auto
    then show ?thesis using R(4) ab by simp
  qed
  show ?thesis
    using cm R(2) cell R(3)[unfolded zeros_props(2)] by (simp add: shape_def)
qed

theorem confusion_matrix_counts_witness:
  "length [0, 0, 1 :: int] = length [0, 1, 1 :: int] \<and>
   confusion_matrix [0, 0, 1 :: int] [0, 1, 1 :: int] = Inr [[1, 1], [0, 1]] \<and>
   (\<exists>R. confusion_matrix [0, 0, 1 :: int] [0, 1, 1 :: int] = Inr R \<and>
      length R = card (set [0, 0, 1 :: int]) \<and>
      sum_list (map sum_list R) = real (length [0, 0, 1 :: int]))"
proof -
  have h: "length [0, 0, 1 :: int] = length [0, 1, 1 :: int]" by simp
  show ?thesis
    using h confusion_matrix_counts[OF h] confusion_matrix_example by blast
qed

section \<open>Properties of the class merge\<close>

lemma np_max_Max:
  assumes "maps \<noteq> []"
  shows "np_max maps = Inr (Max (set maps))"
proof (cases maps)
  case Nil
  then show ?thesis using assms by simp
next
  case (Cons x xs)
  have "Max (set (x # xs)) = fold max xs x" by (rule Max.set_eq_fold)
  then show ?thesis using Cons by (simp only: np_max.simps)
qed

lemma add_column_nth:
  assumes "length m = length prows" "r < length m"
  shows "add_column m j prows i ! r = (m ! r)[j := m ! r ! j + prows ! r ! i]"
  using assms by (simp add: add_column_def)

lemma add_column_shape:
  assumes "shape n k m" "length prows = n"
  shows "shape n k (add_column m j prows i)"
  using assms by (simp add: shape_def list_all_length add_column_def)

lemma add_column_cell:
  assumes "shape n k m" "length prows = n" "r < n" "j < k" "j' < k"
  shows "add_column m j prows i ! r ! j' = m ! r ! j' + (if j' = j then prows ! r ! i else 0)"
proof -
  have l: "length m = length prows" "r < length m" using assms by (simp_all add: shape_def)
  have "length (m ! r) = k" using shape_nth[OF assms(1,3)] .
  then show ?thesis using add_column_nth[OF l] assms(4,5) by (simp add: nth_list_update)
qed

lemma merge_loop_correct:
  assumes "shape n k init" "length prows = n"
    and "\<forall>i\<in>set is. i < length maps \<and> maps ! i < int k"
  shows "\<exists>M. merge_loop prows maps is init = Inr M \<and> shape n k M \<and>
           (\<forall>r<n. \<forall>j<k. M ! r ! j = init ! r ! j +
              (\<Sum>i\<leftarrow>is. if maps ! i = int j then prows ! r ! i else 0))"
  using assms
proof (induction "is" arbitrary: init)
  case Nil
  then show ?case by simp
next
  case (Cons i "is")
  have i: "i < length maps" "maps ! i < int k" using Cons.prems(3) by simp_all
  have rest: "\<forall>i\<in>set is. i < length maps \<and> maps ! i < int k" using Cons.prems(3) by simp
  show ?case
  proof (cases "0 \<le> maps ! i")
    case True
    let ?j = "nat (maps ! i)"
    let ?m = "add_column init ?j prows i"
    have j: "?j < k" using True i(2) by linarith
    have sh: "shape n k ?m" using Cons.prems(1,2) by (rule add_column_shape)
    obtain M where M: "merge_loop prows maps is ?m = Inr M" "shape n k M"
      "\<forall>r<n. \<forall>j<k. M ! r ! j = ?m ! r ! j +
              (\<Sum>i\<leftarrow>is. if maps ! i = int j then prows ! r ! i else 0)"
      using Cons.IH[OF sh Cons.prems(2) rest] by blast
    have "M ! r ! j' = init ! r ! j' +
              (\<Sum>i\<leftarrow>i # is. if maps ! i = int j' then prows ! r ! i else 0)"
      if "r < n" "j' < k" for r j'
    proof -
      have "(j' = ?j) = (maps ! i = int j')" using True by auto
      then show ?thesis
        using M(3) that add_column_cell[OF Cons.prems(1,2) that(1) j that(2), of i] by simp
    qed
    then show ?thesis using M(1,2) True i(1) by simp
  next
    case False
    obtain M where M: "merge_loop prows maps is init = Inr M" "shape n k M"
      "\<forall>r<n. \<forall>j<k. M ! r ! j = init ! r ! j +
              (\<Sum>i\<leftarrow>is. if maps ! i = int j then prows ! r ! i else 0)"
      using Cons.IH[OF Cons.prems(1,2) rest] by blast
    have "maps ! i \<noteq> int j" for j using False by simp
    then show ?thesis using M False i(1) by simp
  qed
qed


lemma merge_probs_merged:
  assumes wf: "wf_ndarray probs" and ne: "maps \<noteq> []" and len: "ncols probs \<le> length maps"
    and ge: "\<forall>m\<in>set maps. - 1 \<le> m"
  shows "merge_probs probs maps =
           Inr (let M = map (merged_row maps (ncols probs) (nat (Max (set maps) + 1))) (rows probs)
                in if - 1 \<in> set maps then renormalize_rows M else map (map Num) M)"
proof -
  let ?K' = "nat (Max (set maps) + 1)" and ?n = "length (rows probs)"
  let ?z = "replicate ?n (replicate ?K' (0::real))"
  have mx: "- 1 \<le> Max (set maps)"
  proof -
    obtain m where "m \<in> set maps" using ne by (cases maps) auto
    then have "- 1 \<le> m" "m \<le> Max (set maps)" using ge by simp_all
    then show ?thesis by linarith
  qed
  have nn: "\<not> Max (set maps) + 1 < 0" using mx by simp
  have idx: "\<forall>i\<in>set [0..<ncols probs]. i < length maps \<and> maps ! i < int ?K'"
  proof
    fix i assume "i \<in> set [0..<ncols probs]"
    then have i: "i < length maps" using len by simp
    then have "maps ! i \<le> Max (set maps)" by simp
    then show "i < length maps \<and> maps ! i < int ?K'" using i mx by simp
  qed
  obtain M where M: "merge_loop (rows probs) maps [0..<ncols probs] ?z = Inr M" "shape ?n ?K' M"
    "\<forall>r<?n. \<forall>j<?K'. M ! r ! j = ?z ! r ! j +
        (\<Sum>i\<leftarrow>[0..<ncols probs]. if maps ! i = int j then rows probs ! r ! i else 0)"
    using merge_loop_correct[OF zeros_props(1) refl idx] by blast
  have "M = map (merged_row maps (ncols probs) ?K') (rows probs)"
  proof (rule nth_equalityI)
    show "length M = length (map (merged_row maps (ncols probs) ?K') (rows probs))"
      using M(2) by (simp add: shape_def)
  next
    fix r assume "r < length M"
    then have r: "r < ?n" using M(2) by (simp add: shape_def)
    have "M ! r = merged_row maps (ncols probs) ?K' (rows probs ! r)"
    proof (rule nth_equalityI)
      show "length (M ! r) = length (merged_row maps (ncols probs) ?K' (rows probs ! r))"
        using shape_nth[OF M(2) r] by (simp add: merged_row_def)
    next
      fix j assume "j < length (M ! r)"
      then have j: "j < ?K'" using shape_nth[OF M(2) r] by simp
      show "M ! r ! j = merged_row maps (ncols probs) ?K' (rows probs ! r) ! j"
        using M(3) r j by (simp add: merged_row_def)
    qed
    then show "M ! r = map (merged_row maps (ncols probs) ?K') (rows probs) ! r"
      using r by simp
  qed
  then show ?thesis
    using M(1) nn by (simp add: merge_probs_def np_max_Max[OF ne] Let_def)
qed




lemma Max_identity_map: "0 < K \<Longrightarrow> Max (set (map int [0..<K])) = int K - 1"
proof -
  assume K: "0 < K"
  show ?thesis
  proof (rule Max_eqI)
    show "finite (set (map int [0..<K]))" by simp
    show "\<And>y. y \<in> set (map int [0..<K]) \<Longrightarrow> y \<le> int K - 1" by auto
    have "int (K - 1) \<in> set (map int [0..<K])" using K by (simp del: of_nat_diff)
    then show "int K - 1 \<in> set (map int [0..<K])" using K by (simp add: of_nat_diff)
  qed
qed

lemma merged_row_identity:
  assumes "length row = K"
  shows "merged_row (map int [0..<K]) K K row = row"
proof (rule nth_equalityI)
  show "length (merged_row (map int [0..<K]) K K row) = length row"
    using assms by (simp add: merged_row_def)
next
  fix j assume "j < length (merged_row (map int [0..<K]) K K row)"
  then have j: "j < K" by (simp add: merged_row_def)
  have eq: "map (\<lambda>i. if map int [0..<K] ! i = int j then row ! i else 0) [0..<K]
          = map (\<lambda>i. if i = j then row ! i else 0) [0..<K]"
    by (intro map_cong) simp_all
  have "merged_row (map int [0..<K]) K K row ! j
               = (\<Sum>i\<leftarrow>[0..<K]. if map int [0..<K] ! i = int j then row ! i else 0)"
    unfolding merged_row_def using j by (subst nth_map) simp_all
  also have "\<dots> = (\<Sum>i\<leftarrow>[0..<K]. if i = j then row ! i else 0)"
    by (simp only: eq)
  also have "\<dots> = (\<Sum>i\<in>{0..<K}. if i = j then row ! i else 0)"
    by (simp add: interv_sum_list_conv_sum_set_nat)
  also have "\<dots> = row ! j" using j by (simp only: sum.delta' sum.delta finite_atLeastLessThan) simp
  finally show "merged_row (map int [0..<K]) K K row ! j = row ! j" .
qed

text \<open>
  Claim C6, amended. For every \<open>N\<close> by \<open>K\<close> matrix \<open>P\<close> with \<open>K > 0\<close>, in particular
  for every probability matrix over at least one class, \<^verbatim>\<open>merge_probs\<close> with the
  identity class map \<open>[0, 1, ..., K-1]\<close> returns exactly the entries of \<open>P\<close>.
\<close>

theorem merge_probs_identity:
  assumes "wf_ndarray P" "0 < ncols P"
  shows "merge_probs P (map int [0..<ncols P]) = Inr (map (map Num) (rows P))"
proof -
  let ?K = "ncols P" and ?maps = "map int [0..<ncols P]"
  have ne: "?maps \<noteq> []" using assms(2) by simp
  have ge: "\<forall>m\<in>set ?maps. - 1 \<le> m" by auto
  have no: "- 1 \<notin> set ?maps" by auto
  have k: "nat (Max (set ?maps) + 1) = ?K" using Max_identity_map[OF assms(2)] by simp
  have "map (merged_row ?maps ?K ?K) (rows P) = rows P"
    using assms(1) by (intro map_idI merged_row_identity) (simp add: wf_ndarray_def list_all_iff)
  then show ?thesis
    using merge_probs_merged[OF assms(1) ne _ ge] no k by (simp add: Let_def)
qed

lemma merge_loop_short:
  assumes "a \<le> length maps" "length maps < b"
  shows "merge_loop prows maps [a..<b] init = Inl IndexError"
  using assms
proof (induction "length maps - a" arbitrary: a init)
  case 0
  then have "a = length maps" by simp
  then show ?case using "0.prems"(2) by (simp add: upt_rec[of "length maps" b])
next
  case (Suc d)
  then have a: "a < length maps" "a < b" by simp_all
  have "d = length maps - Suc a" using Suc.hyps(2) by simp
  then have ih: "merge_loop prows maps [Suc a..<b] init' = Inl IndexError" for init'
    using Suc.hyps(1)[of "Suc a" init'] a Suc.prems(2) by simp
  show ?case using a ih by (simp add: upt_rec[of a b])
qed

text \<open>
  Claim C9, amended. The sources define no \<^verbatim>\<open>ShapeMismatchError\<close>. When the two
  label sequences differ in length, \<^verbatim>\<open>confusion_matrix\<close> fails its
  \<^verbatim>\<open>assert\<close>, an \<^verbatim>\<open>AssertionError\<close>. When the class map (not empty, entries
  \<open>\<ge> -1\<close>) is shorter than the number of probability columns,
  \<^verbatim>\<open>merge_probs\<close> raises \<^verbatim>\<open>IndexError\<close> on reading \<^verbatim>\<open>maps[i]\<close>; when
  it is longer, \<^verbatim>\<open>merge_probs\<close> raises nothing and returns a matrix with one row
  per input row.
\<close>

theorem shape_errors:
  "(length true \<noteq> length pred \<longrightarrow> confusion_matrix true pred = Inl AssertionError) \<and>
   (maps \<noteq> [] \<and> (\<forall>m\<in>set maps. - 1 \<le> m) \<and> length maps < ncols probs
      \<longrightarrow> merge_probs probs maps = Inl IndexError) \<and>
   (wf_ndarray probs \<and> (\<forall>m\<in>set maps. - 1 \<le> m) \<and> ncols probs < length maps
      \<longrightarrow> (\<exists>R. merge_probs probs maps = Inr R \<and> length R = length (rows probs)))"
proof (intro conjI impI)
  assume "length true \<noteq> length pred"
  then show "confusion_matrix true pred = Inl AssertionError"
    by (simp add: confusion_matrix_def)
next
  assume h: "maps \<noteq> [] \<and> (\<forall>m\<in>set maps. - 1 \<le> m) \<and> length maps < ncols probs"
  then obtain m where "m \<in> set maps" by (cases maps) auto
  then have "- 1 \<le> m" "m \<le> Max (set maps)" using h by simp_all
  then have nn: "\<not> Max (set maps) + 1 < 0" by linarith
  have "merge_loop (rows probs) maps [0..<ncols probs] init = Inl IndexError" for init
    using h by (intro merge_loop_short) simp_all
  then show "merge_probs probs maps = Inl IndexError"
    using h nn by (simp add: merge_probs_def np_max_Max Let_def)
next
  assume h: "wf_ndarray probs \<and> (\<forall>m\<in>set maps. - 1 \<le> m) \<and> ncols probs < length maps"
  then have ne: "maps \<noteq> []" by auto
  have "merge_probs probs maps =
           Inr (let M = map (merged_row maps (ncols probs) (nat (Max (set maps) + 1))) (rows probs)
                in if - 1 \<in> set maps then renormalize_rows M else map (map Num) M)"
    using h by (intro merge_probs_merged ne) simp_all
  then show "\<exists>R. merge_probs probs maps = Inr R \<and> length R = length (rows probs)"
    by (simp add: Let_def renormalize_rows_def)
qed

lemma merge_probs_examples:
  "merge_probs \<lparr>ncols = 3, rows = [[0.9, 0.1, 0], [0.6, 0.2, 0.2]]\<rparr> [0, 1, 0, 1]
     = Inr [[Num 0.9, Num 0.1], [Num 0.8, Num 0.2]]"
  "merge_probs \<lparr>ncols = 3, rows = [[0.9, 0.1, 0], [0.6, 0.2, 0.2]]\<rparr> [- 1, 1, 0, 1]
     = Inr [[Num 0, Num 1], [Num 0.5, Num 0.5]]"
  "merge_probs \<lparr>ncols = 2, rows = [[1, 0]]\<rparr> [- 1, 0] = Inr [[NaN]]"
  "merge_probs \<lparr>ncols = 0, rows = []\<rparr> [] = Inl ValueError"
  by code_simp+



theorem merge_probs_identity_witness:
  "wf_ndarray \<lparr>ncols = 3, rows = [[0.9, 0.1, 0], [0.6, 0.2, 0.2]]\<rparr> \<and>
   merge_probs \<lparr>ncols = 3, rows = [[0.9, 0.1, 0], [0.6, 0.2, 0.2]]\<rparr> [0, 1, 2]
     = Inr [[Num 0.9, Num 0.1, Num 0], [Num 0.6, Num 0.2, Num 0.2]]"
proof -
  let ?P = "\<lparr>ncols = 3, rows = [[0.9, 0.1, 0], [0.6, 0.2, 0.2 :: real]]\<rparr>"
  have h1: "wf_ndarray ?P" by (simp add: wf_ndarray_def)
  have h2: "0 < ncols ?P" by simp
  have m: "map int [0..<ncols ?P] = [0, 1, 2]" by (simp add: upt_rec)
  show ?thesis using h1 merge_probs_identity[OF h1 h2] unfolding m by simp
qed

text \<open>
  The claim as stated fails for \<open>K = 0\<close>: the matrix with no rows and no columns is
  vacuously a probability matrix, its identity class map is empty, and
  \<^verbatim>\<open>np.max\<close> raises \<^verbatim>\<open>ValueError\<close>.
\<close>

theorem merge_probs_identity_counterexample:
  "wf_ndarray \<lparr>ncols = 0, rows = []\<rparr> \<and>
   merge_probs \<lparr>ncols = 0, rows = []\<rparr> (map int [0..<0]) = Inl ValueError"
  by code_simp

theorem shape_errors_witness:
  "length [0 :: int] \<noteq> length ([] :: int list) \<and>
   confusion_matrix [0 :: int] ([] :: int list) = Inl AssertionError \<and>
   merge_probs \<lparr>ncols = 3, rows = [[0.9, 0.1, 0]]\<rparr> [0, 1] = Inl IndexError \<and>
   (\<exists>R. merge_probs \<lparr>ncols = 3, rows = [[0.9, 0.1, 0], [0.6, 0.2, 0.2]]\<rparr> [0, 1, 0, 1] = Inr R \<and>
      length R = 2)"
proof -
  let ?P = "\<lparr>ncols = 3, rows = [[0.9, 0.1, 0], [0.6, 0.2, 0.2 :: real]]\<rparr>"
  let ?Q = "\<lparr>ncols = 3, rows = [[0.9, 0.1, 0 :: real]]\<rparr>"
  have a: "length [0 :: int] \<noteq> length ([] :: int list)" by simp
  have b: "[0, 1 :: int] \<noteq> [] \<and> (\<forall>m\<in>set [0, 1 :: int]. - 1 \<le> m) \<and>
           length [0, 1 :: int] < ncols ?Q" by simp
  have c: "wf_ndarray ?P \<and> (\<forall>m\<in>set [0, 1, 0, 1 :: int]. - 1 \<le> m) \<and>
           ncols ?P < length [0, 1, 0, 1 :: int]" by (simp add: wf_ndarray_def)
  have 1: "confusion_matrix [0 :: int] ([] :: int list) = Inl AssertionError"
    using shape_errors[of "[0 :: int]" "[] :: int list" "[0, 1]" ?Q] a by blast
  have 2: "merge_probs ?Q [0, 1] = Inl IndexError"
    using shape_errors[of "[0 :: int]" "[] :: int list" "[0, 1]" ?Q] b by blast
  have 3: "\<exists>R. merge_probs ?P [0, 1, 0, 1] = Inr R \<and> length R = length (rows ?P)"
    using shape_errors[of "[0 :: int]" "[] :: int list" "[0, 1, 0, 1]" ?P] c by blast
  have 4: "\<exists>R. merge_probs ?P [0, 1, 0, 1] = Inr R \<and> length R = 2"
    using 3 by (simp add: numeral_2_eq_2)
  show ?thesis using a 1 2 4 by (intro conjI)
qed

text \<open>
  The claim as stated fails: the error of \<^verbatim>\<open>confusion_matrix\<close> is an
  \<^verbatim>\<open>AssertionError\<close>, and \<^verbatim>\<open>merge_probs\<close> accepts a class map longer than
  the number of columns, as the call in \<^verbatim>\<open>tests/test_token_classification.py\<close>
  with three columns and \<^verbatim>\<open>maps = [0, 1, 0, 1]\<close> does.
\<close>

theorem shape_errors_counterexample:
  "confusion_matrix [0 :: int] ([] :: int list) = Inl AssertionError \<and>
   merge_probs \<lparr>ncols = 3, rows = [[0.9, 0.1, 0], [0.6, 0.2, 0.2]]\<rparr> [0, 1, 0, 1]
     = Inr [[Num 0.9, Num 0.1], [Num 0.8, Num 0.2]]"
  by code_simp

section \<open>Properties of the noise-rate clip\<close>

lemma column_sum: "length m = K \<Longrightarrow> sum_list (column m j) = (\<Sum>i = 0..<K. m ! i ! j)"
  by (simp add: column_def sum_list_sum_nth)












section \<open>Division by a zero sum\<close>



lemma clip_values_examples:
  "clip_values [0, 0] 0 1 (Some 1) = Inr [NaN, NaN]"
  "clip_values [0.5, 2, - 1] 0 1 None = Inr [Num 0.5, Num 1, Num 0]"
  "clip_values [] 0 1 None = Inl ValueError"
  by code_simp+



section \<open>Properties of the noise removal\<close>

lemma zero_fold:
  "length (fold (\<lambda>j row. row[j := 0]) js row) = length row"
  "j < length row \<Longrightarrow>
     fold (\<lambda>j row. row[j := (0::real)]) js row ! j = (if j \<in> set js then 0 else row ! j)"
proof -
  show l: "length (fold (\<lambda>j row. row[j := 0]) js row) = length row" for row :: "real list"
    by (induction js arbitrary: row) auto
  show "j < length row \<Longrightarrow>
     fold (\<lambda>j row. row[j := (0::real)]) js row ! j = (if j \<in> set js then 0 else row ! j)"
  proof (induction js arbitrary: row)
    case Nil
    then show ?case by simp
  next
    case (Cons a js)
    then show ?case by (cases "a = j") simp_all
  qed
qed

lemma repair_diagonal_shape: "shape K K x \<Longrightarrow> shape K K (repair_diagonal i x)"
  unfolding repair_diagonal_def by (rule shape_cell_update)

lemma repair_diagonal_cell:
  assumes "shape K K x" "i < K" "a < K" "b < K"
  shows "repair_diagonal i x ! a ! b =
     (if a = i \<and> b = i then 1 - (\<Sum>r\<in>{0..<K} - {i}. x ! r ! i) else x ! a ! b)"
proof -
  have l: "length x = K" "length (x ! i) = K"
    using assms(1,2) by (simp_all add: shape_def list_all_length)
  have "sum_list (column x i) = (\<Sum>r = 0..<K. x ! r ! i)" using l(1) by (rule column_sum)
  also have "\<dots> = x ! i ! i + (\<Sum>r\<in>{0..<K} - {i}. x ! r ! i)"
    using assms(2) by (intro sum.remove) simp_all
  finally have "sum_list (column x i) - x ! i ! i = (\<Sum>r\<in>{0..<K} - {i}. x ! r ! i)" by simp
  then show ?thesis
    using l assms(2,3,4) by (simp add: repair_diagonal_def nth_list_update)
qed

lemma repair_fold:
  assumes "shape K K x" "distinct is" "\<forall>i\<in>set is. i < K"
  shows "shape K K (fold repair_diagonal is x) \<and>
         (\<forall>a<K. \<forall>b<K. fold repair_diagonal is x ! a ! b =
            (if a = b \<and> a \<in> set is then 1 - (\<Sum>r\<in>{0..<K} - {a}. x ! r ! a) else x ! a ! b))"
  using assms
proof (induction "is" arbitrary: x)
  case Nil
  then show ?case by simp
next
  case (Cons i "is")
  let ?x = "repair_diagonal i x"
  have i: "i < K" "i \<notin> set is" using Cons.prems by simp_all
  have sh: "shape K K ?x" using Cons.prems(1) by (rule repair_diagonal_shape)
  have ih: "shape K K (fold repair_diagonal is ?x)"
    "\<And>a b. a < K \<Longrightarrow> b < K \<Longrightarrow> fold repair_diagonal is ?x ! a ! b =
            (if a = b \<and> a \<in> set is then 1 - (\<Sum>r\<in>{0..<K} - {a}. ?x ! r ! a) else ?x ! a ! b)"
    using Cons.IH[OF sh] Cons.prems(2,3) by simp_all
  have off: "(\<Sum>r\<in>{0..<K} - {a}. ?x ! r ! a) = (\<Sum>r\<in>{0..<K} - {a}. x ! r ! a)" if "a < K" for a
  proof (rule sum.cong[OF refl])
    fix r assume "r \<in> {0..<K} - {a}"
    then have "r < K" "r \<noteq> a" by auto
    then show "?x ! r ! a = x ! r ! a"
      using repair_diagonal_cell[OF Cons.prems(1) i(1) \<open>r < K\<close> that] by auto
  qed
  have "fold repair_diagonal (i # is) x ! a ! b =
            (if a = b \<and> a \<in> set (i # is) then 1 - (\<Sum>r\<in>{0..<K} - {a}. x ! r ! a) else x ! a ! b)"
    if "a < K" "b < K" for a b
    using ih(2)[OF that] off[OF that(1)] repair_diagonal_cell[OF Cons.prems(1) i(1) that] i(2)
    by auto
  then show ?case using ih(1) by simp
qed

text \<open>
  Claim C5. For every \<open>K\<close> by \<open>K\<close> matrix and class index \<open>c\<close> in \<open>[0, K)\<close>,
  \<^verbatim>\<open>remove_noise_from_class\<close> returns a \<open>K\<close> by \<open>K\<close> matrix in which every
  off-diagonal entry of row \<open>c\<close> is 0, every diagonal entry \<open>[i][i]\<close> is 1 minus the sum
  of the off-diagonal entries of column \<open>i\<close>, and every column sums to 1; the
  off-diagonal entries outside row \<open>c\<close> are those of the input. Whether the input's
  columns sum to 1 plays no role.
\<close>

theorem remove_noise_from_class_columns:
  assumes sh: "shape K K M" and c: "c < K"
  shows "\<exists>R. remove_noise_from_class M (int c) = Inr R \<and>
           length R = K \<and> list_all (\<lambda>row. length row = K) R \<and>
           (\<forall>j<K. j \<noteq> c \<longrightarrow> R ! c ! j = 0) \<and>
           (\<forall>i<K. R ! i ! i = 1 - (\<Sum>r\<leftarrow>[0..<K]. if r = i then 0 else R ! r ! i)) \<and>
           (\<forall>i<K. sum_list (column R i) = 1) \<and>
           (\<forall>i<K. \<forall>j<K. i \<noteq> j \<and> i \<noteq> c \<longrightarrow> R ! i ! j = M ! i ! j)"
proof -
  let ?others = "filter (\<lambda>i. int i \<noteq> int c) [0..<K]"
  let ?x = "M[c := fold (\<lambda>j row. row[j := 0]) ?others (M ! c)]"
  let ?R = "fold repair_diagonal [0..<K] ?x"
  have lm: "length M = K" and lr: "\<And>i. i < K \<Longrightarrow> length (M ! i) = K"
    using sh by (simp_all add: shape_def list_all_length)
  have res: "remove_noise_from_class M (int c) = Inr ?R"
    using c lm by (simp add: remove_noise_from_class_def Let_def)
  have shx: "shape K K ?x"
    using lm lr c by (simp add: shape_def list_all_length nth_list_update zero_fold(1))
  have xcell: "?x ! i ! j = (if i = c \<and> j \<noteq> c then 0 else M ! i ! j)" if "i < K" "j < K" for i j
  proof (cases "i = c")
    case True
    have "fold (\<lambda>j row. row[j := 0]) ?others (M ! c) ! j = (if j \<noteq> c then 0 else M ! c ! j)"
      using that lr[OF c] zero_fold(2)[of j "M ! c" ?others] by simp
    then show ?thesis using True c lm by simp
  next
    case False
    then show ?thesis by simp
  qed
  have R: "shape K K ?R"
    "\<And>a b. a < K \<Longrightarrow> b < K \<Longrightarrow> ?R ! a ! b =
            (if a = b then 1 - (\<Sum>r\<in>{0..<K} - {a}. ?x ! r ! a) else ?x ! a ! b)"
    using repair_fold[OF shx, of "[0..<K]"] by simp_all
  have lR: "length ?R = K" using R(1) by (simp add: shape_def)
  have offsum: "(\<Sum>r\<leftarrow>[0..<K]. if r = i then 0 else ?R ! r ! i) = (\<Sum>r\<in>{0..<K} - {i}. ?x ! r ! i)"
    if i: "i < K" for i
  proof -
    have "(\<Sum>r\<leftarrow>[0..<K]. if r = i then 0 else ?R ! r ! i)
            = (\<Sum>r = 0..<K. if r = i then 0 else ?R ! r ! i)"
      by (simp add: interv_sum_list_conv_sum_set_nat)
    also have "\<dots> = (if i = i then 0 else ?R ! i ! i) + (\<Sum>r\<in>{0..<K} - {i}. if r = i then 0 else ?R ! r ! i)"
      using i by (intro sum.remove) simp_all
    also have "(\<Sum>r\<in>{0..<K} - {i}. if r = i then 0 else ?R ! r ! i) = (\<Sum>r\<in>{0..<K} - {i}. ?x ! r ! i)"
      using R(2) i by (intro sum.cong) auto
    finally show ?thesis by simp
  qed
  have diag: "?R ! i ! i = 1 - (\<Sum>r\<leftarrow>[0..<K]. if r = i then 0 else ?R ! r ! i)" if "i < K" for i
    using R(2)[OF that that] offsum[OF that] by simp
  have colsum: "sum_list (column ?R i) = 1" if i: "i < K" for i
  proof -
    have "sum_list (column ?R i) = (\<Sum>r = 0..<K. ?R ! r ! i)" using lR by (rule column_sum)
    also have "\<dots> = ?R ! i ! i + (\<Sum>r\<in>{0..<K} - {i}. ?R ! r ! i)"
      using i by (intro sum.remove) simp_all
    also have "(\<Sum>r\<in>{0..<K} - {i}. ?R ! r ! i) = (\<Sum>r\<in>{0..<K} - {i}. ?x ! r ! i)"
      using R(2) i by (intro sum.cong) auto
    finally show ?thesis using R(2)[OF i i] by simp
  qed
  have row_c: "?R ! c ! j = 0" if "j < K" "j \<noteq> c" for j
    using R(2)[OF c that(1)] xcell[OF c that(1)] that(2) by simp
  have keep: "?R ! i ! j = M ! i ! j" if "i < K" "j < K" "i \<noteq> j" "i \<noteq> c" for i j
    using R(2)[OF that(1,2)] xcell[OF that(1,2)] that(3,4) by simp
  show ?thesis
    by (rule exI[of _ ?R])
      (use res R(1) row_c diag colsum keep in \<open>simp add: shape_def\<close>)
qed

lemma remove_noise_from_class_examples:
  "remove_noise_from_class [[0.8, 0.3, 0.1], [0.1, 0.6, 0.2], [0.1, 0.1, 0.7]] 1
     = Inr [[0.9, 0.3, 0.1], [0, 0.6, 0], [0.1, 0.1, 0.9]]"
  "remove_noise_from_class [[0.8, 0.3], [0.2, 0.7]] 2 = Inl IndexError"
  by code_simp+

theorem remove_noise_from_class_columns_witness:
  "shape 2 2 [[0.8, 0.3], [0.2, 0.7]] \<and>
   remove_noise_from_class [[0.8, 0.3], [0.2, 0.7]] (int 0) = Inr [[0.8, 0], [0.2, 1]] \<and>
   (\<exists>R. remove_noise_from_class [[0.8, 0.3], [0.2, 0.7]] (int 0) = Inr R \<and>
      R ! 0 ! 1 = 0 \<and> sum_list (column R 0) = 1 \<and> sum_list (column R 1) = 1)"
proof -
  let ?M = "[[0.8, 0.3], [0.2, 0.7 :: real]]"
  have h1: "shape 2 2 ?M" by (simp add: shape_def)
  have h2: "(0::nat) < 2" by simp
  have e: "remove_noise_from_class ?M (int 0) = Inr [[0.8, 0], [0.2, 1]]" by code_simp
  from remove_noise_from_class_columns[OF h1 h2] obtain R where
    R: "remove_noise_from_class ?M (int 0) = Inr R"
    "\<forall>j<2. j \<noteq> 0 \<longrightarrow> R ! 0 ! j = 0" "\<forall>i<2. sum_list (column R i) = 1"
    by blast
  have "R ! 0 ! 1 = 0" "sum_list (column R 0) = 1" "sum_list (column R 1) = 1"
    using R(2,3) by simp_all
  then have x: "\<exists>R. remove_noise_from_class ?M (int 0) = Inr R \<and>
      R ! 0 ! 1 = 0 \<and> sum_list (column R 0) = 1 \<and> sum_list (column R 1) = 1"
    using R(1) by blast
  show ?thesis using h1 e x by (intro conjI)
qed

end
